theory Spec2Isabelle
  imports Main
begin

section \<open>The viewport breakpoint hooks of \<open>apps/ui/src/hooks/use-media-query.ts\<close>\<close>

text \<open>
  The file defines one React hook, \<open>useMediaQuery(query)\<close>, and two shortcuts,
  \<open>useIsMobile\<close> and \<open>useIsTablet\<close>. The hook has a state cell
  (\<open>useState\<close> with a lazy initialiser) and an effect (\<open>useEffect\<close> with the
  dependency list \<open>[query]\<close>) that subscribes a change listener to the platform's
  \<open>MediaQueryList\<close> and returns a cleanup that removes it.

  The embedding makes the two pieces of ambient state explicit:
  \<^item> the platform (\<open>window\<close>, its viewport and the change listeners attached to
    \<open>MediaQueryList\<close> objects) is a record \<open>world\<close>;
  \<^item> React's per-instance hook memory (the state cell, the dependencies and the cleanup
    of the last effect run) is a record \<open>hooks\<close>.
  An exception of the platform is the left summand of a sum type.
\<close>

subsection \<open>The platform\<close>

text \<open>Whatever \<open>window.matchMedia\<close> raises; the hook never inspects it.\<close>

datatype error = PlatformError string

text \<open>
  The query engine is a parameter of the development: given the query string it either
  raises or yields the condition on the viewport that the query denotes. The type
  \<open>'v\<close> is whatever the platform knows about the viewport (a width, for instance).
\<close>

type_synonym 'v platform = "string \<Rightarrow> error + ('v \<Rightarrow> bool)"

text \<open>
  A \<open>MediaQueryList\<close> object: its identity on the heap, the query it was made from
  (its \<open>media\<close> attribute) and the condition read by its live \<open>matches\<close> attribute.
\<close>

record 'v MediaQueryList =
  mql_ref :: nat
  media :: string
  test :: "'v \<Rightarrow> bool"

text \<open>
  A \<open>handleChange\<close> closure: its identity on the heap and the component instance whose
  \<open>setMatches\<close> it captured.
\<close>

record callback =
  cb_ref :: nat
  cb_owner :: nat

text \<open>One registered \<open>'change'\<close> listener: the object it is attached to and the callback.\<close>

record 'v listener =
  target :: "'v MediaQueryList"
  handler :: callback

text \<open>
  \<open>window\<close> is \<open>None\<close> exactly when \<open>typeof window === 'undefined'\<close>, and otherwise
  holds the current viewport. \<open>listeners\<close> are all change listeners currently attached,
  oldest first; \<open>next_ref\<close> is the next unused heap identity.
\<close>

record 'v world =
  window :: "'v option"
  listeners :: "'v listener list"
  next_ref :: nat

text \<open>\<open>window.matchMedia(query)\<close>: raises what the engine raises, else a new object.\<close>

definition matchMedia ::
  "'v platform \<Rightarrow> string \<Rightarrow> 'v world \<Rightarrow> (error \<times> 'v world) + ('v MediaQueryList \<times> 'v world)" where
  "matchMedia P query wd =
     (case P query of
        Inl e \<Rightarrow> Inl (e, wd)
      | Inr t \<Rightarrow> Inr (\<lparr>mql_ref = next_ref wd, media = query, test = t\<rparr>,
                     wd\<lparr>next_ref := Suc (next_ref wd)\<rparr>))"

definition same_listener :: "'v MediaQueryList \<Rightarrow> callback \<Rightarrow> 'v listener \<Rightarrow> bool" where
  "same_listener m cb l = (mql_ref (target l) = mql_ref m \<and> handler l = cb)"

text \<open>
  \<open>m.addEventListener('change', cb)\<close>: the DOM appends the listener unless the same
  callback is already registered on the same object.
\<close>

definition addEventListener :: "'v MediaQueryList \<Rightarrow> callback \<Rightarrow> 'v world \<Rightarrow> 'v world" where
  "addEventListener m cb wd =
     (if list_ex (same_listener m cb) (listeners wd) then wd
      else wd\<lparr>listeners := listeners wd @ [\<lparr>target = m, handler = cb\<rparr>]\<rparr>)"

text \<open>\<open>m.removeEventListener('change', cb)\<close>: removes that listener if it is there.\<close>

definition removeEventListener :: "'v MediaQueryList \<Rightarrow> callback \<Rightarrow> 'v world \<Rightarrow> 'v world" where
  "removeEventListener m cb wd =
     wd\<lparr>listeners := filter (\<lambda>l. \<not> same_listener m cb l) (listeners wd)\<rparr>"

subsection \<open>The hook's memory\<close>

text \<open>
  The calls with an effect outside the hook that one instance has made, oldest first. This
  is the only ghost component of the model: the source does not keep it, the properties
  about "updates" count its entries.
\<close>

datatype call = SetMatches bool | AddEventListener string | RemoveEventListener string

text \<open>
  \<open>inst\<close> identifies the component instance. \<open>matches\<close> is the \<open>useState\<close> cell,
  \<open>declared\<close> the dependency list \<open>[query]\<close> that the \<open>useEffect\<close> call of the
  latest render declared (the effect closure captures the same \<open>query\<close>), \<open>deps\<close> the
  dependency list of the last effect run (\<open>None\<close> before the first), \<open>cleanup\<close> the
  closure that run returned, as the pair \<open>(mediaQuery, handleChange)\<close> it captured
  (\<open>None\<close> when the effect returned nothing).
\<close>

record 'v hooks =
  inst :: nat
  matches :: bool
  declared :: string
  deps :: "string option"
  cleanup :: "('v MediaQueryList \<times> callback) option"
  calls :: "call list"

text \<open>\<open>setMatches(b)\<close>.\<close>

definition setMatches :: "bool \<Rightarrow> 'v hooks \<Rightarrow> 'v hooks" where
  "setMatches b h = h\<lparr>matches := b, calls := calls h @ [SetMatches b]\<rparr>"

subsection \<open>\<open>useMediaQuery\<close>\<close>

text \<open>
  The lazy initialiser of \<open>useState\<close> (lines 9 to 12):
  \<^verbatim>\<open>if (typeof window === 'undefined') return false;
return window.matchMedia(query).matches;\<close>
\<close>

definition initial_matches ::
  "'v platform \<Rightarrow> string \<Rightarrow> 'v world \<Rightarrow> (error \<times> 'v world) + (bool \<times> 'v world)" where
  "initial_matches P query wd =
     (case window wd of
        None \<Rightarrow> Inr (False, wd)
      | Some v \<Rightarrow>
          (case matchMedia P query wd of
             Inl ex \<Rightarrow> Inl ex
           | Inr (mediaQuery, wd') \<Rightarrow> Inr (test mediaQuery v, wd')))"

text \<open>
  The body of the effect (lines 15 to 30). It returns early without a cleanup when there
  is no window; otherwise it makes the \<open>MediaQueryList\<close> and the \<open>handleChange\<close>
  closure, publishes the current match state, registers the listener and returns the
  cleanup.
\<close>

definition effect ::
  "'v platform \<Rightarrow> string \<Rightarrow> 'v hooks \<Rightarrow> 'v world \<Rightarrow> (error \<times> 'v world) + ('v hooks \<times> 'v world)" where
  "effect P query h wd =
     (case window wd of
        None \<Rightarrow> Inr (h\<lparr>cleanup := None\<rparr>, wd)
      | Some v \<Rightarrow>
          (case matchMedia P query wd of
             Inl ex \<Rightarrow> Inl ex
           | Inr (mediaQuery, wd1) \<Rightarrow>
               (let handleChange = \<lparr>cb_ref = next_ref wd1, cb_owner = inst h\<rparr>;
                    wd2 = wd1\<lparr>next_ref := Suc (next_ref wd1)\<rparr>;
                    h1 = setMatches (test mediaQuery v) h;
                    wd3 = addEventListener mediaQuery handleChange wd2;
                    h2 = h1\<lparr>calls := calls h1 @ [AddEventListener (media mediaQuery)]\<rparr>
                in Inr (h2\<lparr>cleanup := Some (mediaQuery, handleChange)\<rparr>, wd3))))"

text \<open>
  Running the cleanup of the last effect run, if it returned one (lines 28 to 30):
  \<^verbatim>\<open>mediaQuery.removeEventListener('change', handleChange);\<close>
\<close>

definition run_cleanup :: "'v hooks \<Rightarrow> 'v world \<Rightarrow> 'v hooks \<times> 'v world" where
  "run_cleanup h wd =
     (case cleanup h of
        None \<Rightarrow> (h, wd)
      | Some (mediaQuery, handleChange) \<Rightarrow>
          (h\<lparr>cleanup := None, calls := calls h @ [RemoveEventListener (media mediaQuery)]\<rparr>,
           removeEventListener mediaQuery handleChange wd))"

text \<open>
  One call of the hook function (lines 8 to 34) in instance \<open>i\<close>. The memory \<open>None\<close>
  is the first render, where \<open>useState\<close> runs its initialiser; at a later render
  \<open>useState\<close> returns the cell. \<open>useEffect\<close> only records the effect and its
  dependency list. The result is the returned \<open>matches\<close> with the hook memory.
\<close>

type_synonym 'v hook =
  "nat \<Rightarrow> 'v hooks option \<Rightarrow> 'v world \<Rightarrow> (error \<times> 'v world) + (bool \<times> 'v hooks \<times> 'v world)"

definition useMediaQuery :: "'v platform \<Rightarrow> string \<Rightarrow> 'v hook" where
  "useMediaQuery P query i mem wd =
     (case mem of
        None \<Rightarrow>
          (case initial_matches P query wd of
             Inl ex \<Rightarrow> Inl ex
           | Inr (b, wd') \<Rightarrow>
               Inr (b, \<lparr>inst = i, matches = b, declared = query, deps = None,
                        cleanup = None, calls = []\<rparr>, wd'))
      | Some h \<Rightarrow> Inr (matches h, h\<lparr>declared := query\<rparr>, wd))"

text \<open>Lines 40 to 42 and 48 to 50.\<close>

definition useIsMobile :: "'v platform \<Rightarrow> 'v hook" where
  "useIsMobile P = useMediaQuery P ''(max-width: 768px)''"

definition useIsTablet :: "'v platform \<Rightarrow> 'v hook" where
  "useIsTablet P = useMediaQuery P ''(max-width: 1024px)''"

text \<open>
  React's commit after a render: the effect is skipped when the declared dependency list
  is the one of the last run; otherwise the previous cleanup runs, then the effect.
\<close>

definition commit ::
  "'v platform \<Rightarrow> 'v hooks \<Rightarrow> 'v world \<Rightarrow> (error \<times> 'v world) + ('v hooks \<times> 'v world)" where
  "commit P h wd =
     (if deps h = Some (declared h) then Inr (h, wd)
      else (case run_cleanup h wd of
              (h1, wd1) \<Rightarrow> effect P (declared h) (h1\<lparr>deps := Some (declared h)\<rparr>) wd1))"

text \<open>One render of a component that calls \<open>hook\<close>, and its commit.\<close>

definition render ::
  "'v platform \<Rightarrow> 'v hook \<Rightarrow> nat \<Rightarrow> 'v hooks option \<Rightarrow> 'v world
     \<Rightarrow> (error \<times> 'v world) + (bool \<times> 'v hooks \<times> 'v world)" where
  "render P hook i mem wd =
     (case hook i mem wd of
        Inl ex \<Rightarrow> Inl ex
      | Inr (b, h, wd') \<Rightarrow>
          (case commit P h wd' of
             Inl ex \<Rightarrow> Inl ex
           | Inr (h', wd'') \<Rightarrow> Inr (b, h', wd'')))"

text \<open>Mounting an instance of a component that calls \<open>useMediaQuery(query)\<close>.\<close>

definition mount ::
  "'v platform \<Rightarrow> string \<Rightarrow> nat \<Rightarrow> 'v world \<Rightarrow> (error \<times> 'v world) + ('v hooks \<times> 'v world)" where
  "mount P query i wd = map_sum id snd (render P (useMediaQuery P query) i None wd)"

text \<open>A later render of it, with a possibly different \<open>query\<close>.\<close>

definition rerender ::
  "'v platform \<Rightarrow> string \<Rightarrow> 'v hooks \<Rightarrow> 'v world \<Rightarrow> (error \<times> 'v world) + ('v hooks \<times> 'v world)" where
  "rerender P query h wd =
     map_sum id snd (render P (useMediaQuery P query) (inst h) (Some h) wd)"

text \<open>Unmounting (disposal): React runs the cleanup of the last effect run.\<close>

definition unmount :: "'v hooks \<Rightarrow> 'v world \<Rightarrow> 'v hooks \<times> 'v world" where
  "unmount h wd = run_cleanup h wd"

subsection \<open>Change events\<close>

text \<open>
  The event object the platform hands to a change listener; the platform fills
  \<open>matches\<close> with the match state of the target at the time it fires.
\<close>

record MediaQueryListEvent =
  ev_matches :: bool
  ev_media :: string

text \<open>The listener of the source (lines 18 to 20): \<^verbatim>\<open>setMatches(e.matches)\<close>.\<close>

definition handleChange :: "MediaQueryListEvent \<Rightarrow> 'v hooks \<Rightarrow> 'v hooks" where
  "handleChange e h = setMatches (ev_matches e) h"

text \<open>
  The viewport goes from \<open>v\<close> to \<open>v'\<close>. The platform fires one change event at every
  listener whose target changed its match state, in registration order. A callback owned
  by the instance \<open>h\<close> runs \<open>handleChange\<close> on it; the callbacks of other instances do
  not touch \<open>h\<close>.
\<close>

fun dispatch :: "'v \<Rightarrow> 'v \<Rightarrow> 'v listener list \<Rightarrow> 'v hooks \<Rightarrow> 'v hooks" where
  "dispatch v v' [] h = h"
| "dispatch v v' (l # ls) h =
     dispatch v v' ls
       (if test (target l) v \<noteq> test (target l) v' \<and> cb_owner (handler l) = inst h
        then handleChange \<lparr>ev_matches = test (target l) v', ev_media = media (target l)\<rparr> h
        else h)"

definition resize :: "'v \<Rightarrow> 'v hooks \<Rightarrow> 'v world \<Rightarrow> 'v hooks \<times> 'v world" where
  "resize v' h wd =
     (case window wd of
        None \<Rightarrow> (h, wd)
      | Some v \<Rightarrow> (dispatch v v' (listeners wd) h, wd\<lparr>window := Some v'\<rparr>))"

subsection \<open>Lifecycles\<close>

text \<open>What can happen to a mounted instance before it is disposed.\<close>

datatype 'v action = Rerender string | Resize 'v

fun run ::
  "'v platform \<Rightarrow> 'v action list \<Rightarrow> 'v hooks \<Rightarrow> 'v world \<Rightarrow> (error \<times> 'v world) + ('v hooks \<times> 'v world)" where
  "run P [] h wd = Inr (h, wd)"
| "run P (Rerender query # as) h wd =
     (case rerender P query h wd of
        Inl ex \<Rightarrow> Inl ex
      | Inr (h', wd') \<Rightarrow> run P as h' wd')"
| "run P (Resize v' # as) h wd =
     (case resize v' h wd of (h', wd') \<Rightarrow> run P as h' wd')"

text \<open>A sequence of viewport changes, as after disposal.\<close>

fun resizes :: "'v list \<Rightarrow> 'v hooks \<Rightarrow> 'v world \<Rightarrow> 'v hooks \<times> 'v world" where
  "resizes [] h wd = (h, wd)"
| "resizes (v' # vs) h wd = (case resize v' h wd of (h', wd') \<Rightarrow> resizes vs h' wd')"

text \<open>The listeners whose callback belongs to instance \<open>i\<close>.\<close>

definition owned :: "nat \<Rightarrow> 'v listener list \<Rightarrow> 'v listener list" where
  "owned i ls = filter (\<lambda>l. cb_owner (handler l) = i) ls"

subsection \<open>A simulated viewport\<close>

text \<open>
  Modelled from the spec: the platform's query engine behind \<open>window.matchMedia\<close> is
  not part of the repository. The stand-in is the spec's fake viewport context with a
  controllable width: the viewport is its width in pixels, and the engine understands
  exactly the queries \<open>(max-width: Npx)\<close> with \<open>N\<close> a decimal numeral, which hold
  when the width is at most \<open>N\<close>; it raises on every other string.
\<close>

definition digit_of :: "char \<Rightarrow> nat option" where
  "digit_of = map_of
     [(CHR ''0'', 0), (CHR ''1'', 1), (CHR ''2'', 2), (CHR ''3'', 3), (CHR ''4'', 4),
      (CHR ''5'', 5), (CHR ''6'', 6), (CHR ''7'', 7), (CHR ''8'', 8), (CHR ''9'', 9)]"

fun strip_prefix :: "string \<Rightarrow> string \<Rightarrow> string option" where
  "strip_prefix [] s = Some s"
| "strip_prefix (p # ps) [] = None"
| "strip_prefix (p # ps) (c # cs) = (if p = c then strip_prefix ps cs else None)"

definition is_digit :: "char \<Rightarrow> bool" where
  "is_digit c = (digit_of c \<noteq> None)"

definition decimal :: "string \<Rightarrow> nat" where
  "decimal ds = foldl (\<lambda>n c. 10 * n + (case digit_of c of Some d \<Rightarrow> d | None \<Rightarrow> 0)) 0 ds"

definition sim_engine :: "nat platform" where
  "sim_engine query =
     (case strip_prefix ''(max-width: '' query of
        None \<Rightarrow> Inl (PlatformError query)
      | Some rest \<Rightarrow>
          (let ds = takeWhile is_digit rest; unit = dropWhile is_digit rest
           in if ds \<noteq> [] \<and> unit = ''px)'' then Inr (\<lambda>width. width \<le> decimal ds)
              else Inl (PlatformError query)))"

text \<open>
  The value a live component reads at each of a sequence of simulated viewports: it is
  mounted in a window showing the first one; for each further one the viewport changes
  and the component renders again.
\<close>

fun readings ::
  "'v platform \<Rightarrow> 'v hook \<Rightarrow> 'v list \<Rightarrow> 'v hooks \<Rightarrow> 'v world \<Rightarrow> (error \<times> 'v world) + bool list" where
  "readings P hook [] h wd = Inr []"
| "readings P hook (v' # vs) h wd =
     (case resize v' h wd of
        (h1, wd1) \<Rightarrow>
          (case render P hook (inst h1) (Some h1) wd1 of
             Inl ex \<Rightarrow> Inl ex
           | Inr (b, h2, wd2) \<Rightarrow> map_sum id ((#) b) (readings P hook vs h2 wd2)))"

definition simulate ::
  "'v platform \<Rightarrow> 'v hook \<Rightarrow> 'v list \<Rightarrow> (error \<times> 'v world) + bool list" where
  "simulate P hook vs =
     (case vs of
        [] \<Rightarrow> Inr []
      | v # vs' \<Rightarrow>
          (case render P hook 0 None \<lparr>window = Some v, listeners = [], next_ref = 0\<rparr> of
             Inl ex \<Rightarrow> Inl ex
           | Inr (b, h, wd) \<Rightarrow> map_sum id ((#) b) (readings P hook vs' h wd)))"

text \<open>The value of the first render of a new component at each of the viewports.\<close>

definition first_reading :: "'v platform \<Rightarrow> 'v hook \<Rightarrow> 'v \<Rightarrow> error + bool" where
  "first_reading P hook v =
     map_sum fst fst (hook 0 None \<lparr>window = Some v, listeners = [], next_ref = 0\<rparr>)"

subsection \<open>Lifecycles of one instance\<close>

text \<open>
  An instance mounted with \<open>query\<close> in the world \<open>wd\<close>, after the actions \<open>as\<close>: the
  states a live observer can be in. An exception ends it.
\<close>

definition life ::
  "'v platform \<Rightarrow> string \<Rightarrow> nat \<Rightarrow> 'v action list \<Rightarrow> 'v world \<Rightarrow> (error \<times> 'v world) + ('v hooks \<times> 'v world)" where
  "life P query i as wd =
     (case mount P query i wd of
        Inl ex \<Rightarrow> Inl ex
      | Inr (h, wd') \<Rightarrow> run P as h wd')"

text \<open>The listeners that belong to anything else than instance \<open>i\<close>.\<close>

definition others :: "nat \<Rightarrow> 'v listener list \<Rightarrow> 'v listener list" where
  "others i ls = filter (\<lambda>l. cb_owner (handler l) \<noteq> i) ls"

text \<open>
  The invariant of a live instance. With a window, the effect's cleanup holds the one
  listener the instance has registered, made from the query of the last effect run, and
  the state cell is the match state on the current viewport. Without a window the
  instance has no cleanup and no listener.
\<close>

definition live :: "'v platform \<Rightarrow> 'v hooks \<Rightarrow> 'v world \<Rightarrow> bool" where
  "live P h wd =
     (case window wd of
        None \<Rightarrow> cleanup h = None \<and> owned (inst h) (listeners wd) = []
      | Some v \<Rightarrow>
          (case cleanup h of
             None \<Rightarrow> False
           | Some (m, cb) \<Rightarrow>
               cb_owner cb = inst h \<and>
               owned (inst h) (listeners wd) = [\<lparr>target = m, handler = cb\<rparr>] \<and>
               deps h = Some (media m) \<and> P (media m) = Inr (test m) \<and>
               matches h = test m v))"

text \<open>
  The world a whole life of one instance leaves behind, whichever way it ends: by an
  exception (React discards the instance) or by unmounting.
\<close>

definition lifecycle :: "'v platform \<Rightarrow> string \<Rightarrow> nat \<Rightarrow> 'v action list \<Rightarrow> 'v world \<Rightarrow> 'v world" where
  "lifecycle P query i as wd =
     (case life P query i as wd of
        Inl (e, wd') \<Rightarrow> wd'
      | Inr (h, wd') \<Rightarrow> snd (unmount h wd'))"

text \<open>Mount/dispose cycles, one after the other, each with its query, instance and actions.\<close>

fun cycles :: "'v platform \<Rightarrow> (string \<times> nat \<times> 'v action list) list \<Rightarrow> 'v world \<Rightarrow> 'v world" where
  "cycles P [] wd = wd"
| "cycles P ((query, i, as) # cs) wd = cycles P cs (lifecycle P query i as wd)"

subsection \<open>The listener as the specification words it\<close>

text \<open>
  The specification's listener "re-reads the match state and republishes it": it ignores
  the event and reads \<open>mediaQuery.matches\<close> of the object the effect made, which the
  cleanup closure of the same effect run holds too. \<open>dispatch_reread\<close> and
  \<open>resize_reread\<close> are \<open>dispatch\<close> and \<open>resize\<close> with that listener in place of the
  source's.
\<close>

definition handleChange_reread :: "'v \<Rightarrow> 'v hooks \<Rightarrow> 'v hooks" where
  "handleChange_reread v' h =
     (case cleanup h of
        None \<Rightarrow> h
      | Some (mediaQuery, cb) \<Rightarrow> setMatches (test mediaQuery v') h)"

fun dispatch_reread :: "'v \<Rightarrow> 'v \<Rightarrow> 'v listener list \<Rightarrow> 'v hooks \<Rightarrow> 'v hooks" where
  "dispatch_reread v v' [] h = h"
| "dispatch_reread v v' (l # ls) h =
     dispatch_reread v v' ls
       (if test (target l) v \<noteq> test (target l) v' \<and> cb_owner (handler l) = inst h
        then handleChange_reread v' h
        else h)"

definition resize_reread :: "'v \<Rightarrow> 'v hooks \<Rightarrow> 'v world \<Rightarrow> 'v hooks \<times> 'v world" where
  "resize_reread v' h wd =
     (case window wd of
        None \<Rightarrow> (h, wd)
      | Some v \<Rightarrow> (dispatch_reread v v' (listeners wd) h, wd\<lparr>window := Some v'\<rparr>))"

subsection \<open>Example worlds\<close>

text \<open>
  A window 800 pixels wide in which another component (instance 9) already listens to
  \<open>(max-width: 1024px)\<close>, and a context without a window.
\<close>

definition demo_world :: "nat world" where
  "demo_world =
     \<lparr>window = Some 800,
      listeners =
        [\<lparr>target = \<lparr>mql_ref = 0, media = ''(max-width: 1024px)'',
                    test = (\<lambda>width. width \<le> 1024)\<rparr>,
          handler = \<lparr>cb_ref = 1, cb_owner = 9\<rparr>\<rparr>],
      next_ref = 2\<rparr>"

definition headless_world :: "nat world" where
  "headless_world = \<lparr>window = None, listeners = [], next_ref = 0\<rparr>"

section \<open>The invariant of a live instance\<close>

lemma inst_setMatches [simp]: "inst (setMatches b h) = inst h"
  by (simp add: setMatches_def)

lemma inst_handleChange [simp]: "inst (handleChange e h) = inst h"
  by (simp add: handleChange_def)

lemma inst_dispatch [simp]: "inst (dispatch v v' ls h) = inst h"
  by (induction ls arbitrary: h) simp_all

lemma dispatch_owned: "dispatch v v' ls h = dispatch v v' (owned (inst h) ls) h"
  by (induction ls arbitrary: h) (simp_all add: owned_def)

lemma owned_append [simp]: "owned i (xs @ ys) = owned i xs @ owned i ys"
  by (simp add: owned_def)

lemma owned_remove:
  "cb_owner cb = i \<Longrightarrow> owned i ls = [\<lparr>target = m, handler = cb\<rparr>] \<Longrightarrow>
   owned i (filter (\<lambda>l. \<not> same_listener m cb l) ls) = []"
proof -
  assume o: "cb_owner cb = i" and one: "owned i ls = [\<lparr>target = m, handler = cb\<rparr>]"
  have "owned i (filter (\<lambda>l. \<not> same_listener m cb l) ls)
        = filter (\<lambda>l. \<not> same_listener m cb l) (owned i ls)"
    by (simp add: owned_def conj_commute)
  also have "\<dots> = []" by (simp add: one same_listener_def)
  finally show ?thesis .
qed

lemma others_append [simp]: "others i (xs @ ys) = others i xs @ others i ys"
  by (simp add: others_def)

lemma others_removed:
  "cb_owner cb = i \<Longrightarrow> others i (filter (\<lambda>l. \<not> same_listener m cb l) ls) = others i ls"
  unfolding others_def filter_filter
  by (rule filter_cong) (auto simp: same_listener_def)

lemma others_all: "owned i ls = [] \<Longrightarrow> others i ls = ls"
  by (auto simp: owned_def others_def filter_empty_conv filter_id_conv)

lemma not_listed:
  "owned (cb_owner cb) ls = [] \<Longrightarrow> \<not> list_ex (same_listener m cb) ls"
  by (auto simp: owned_def list_ex_iff same_listener_def filter_empty_conv)

lemma effect_live:
  assumes "owned (inst h) (listeners wd) = []" and "effect P q (h\<lparr>deps := Some q\<rparr>) wd = Inr (h', wd')"
  shows "live P h' wd' \<and> inst h' = inst h \<and> window wd' = window wd
         \<and> others (inst h) (listeners wd') = others (inst h) (listeners wd)"
  using assms not_listed [of "\<lparr>cb_ref = Suc (next_ref wd), cb_owner = inst h\<rparr>" "listeners wd"]
  by (auto simp: effect_def live_def matchMedia_def addEventListener_def setMatches_def Let_def
        owned_def others_def split: option.splits sum.splits if_splits)

lemma effect_raise:
  "effect P q h wd = Inl (e, wd') \<Longrightarrow> wd' = wd \<and> P q = Inl e"
  by (auto simp: effect_def matchMedia_def Let_def split: option.splits sum.splits)


lemma run_cleanup_live:
  assumes "live P h wd" and "run_cleanup h wd = (h1, wd1)"
  shows "owned (inst h) (listeners wd1) = [] \<and> inst h1 = inst h \<and> window wd1 = window wd
         \<and> cleanup h1 = None \<and> others (inst h) (listeners wd1) = others (inst h) (listeners wd)"
  using assms owned_remove [of _ "inst h" "listeners wd"] others_removed [of _ "inst h" _ "listeners wd"]
  by (auto simp: run_cleanup_def live_def removeEventListener_def
        split: option.splits prod.splits)

lemma commit_live:
  assumes "live P h wd" and "commit P h wd = Inr (h', wd')"
  shows "live P h' wd' \<and> inst h' = inst h \<and> window wd' = window wd
         \<and> others (inst h) (listeners wd') = others (inst h) (listeners wd)"
proof (cases "deps h = Some (declared h)")
  case True
  with assms show ?thesis by (simp add: commit_def)
next
  case False
  obtain h1 wd1 where rc: "run_cleanup h wd = (h1, wd1)" by (cases "run_cleanup h wd")
  from run_cleanup_live [OF assms(1) rc]
  have o: "owned (inst h1) (listeners wd1) = []" and i: "inst h1 = inst h"
    and w: "window wd1 = window wd"
    and ot: "others (inst h) (listeners wd1) = others (inst h) (listeners wd)" by simp_all
  from assms(2) False rc
  have "effect P (declared h) (h1\<lparr>deps := Some (declared h)\<rparr>) wd1 = Inr (h', wd')"
    by (simp add: commit_def)
  from effect_live [OF o this] i w ot show ?thesis by simp
qed

lemma commit_raise:
  assumes "live P h wd" and "commit P h wd = Inl (e, wd')"
  shows "owned (inst h) (listeners wd') = [] \<and> window wd' = window wd
         \<and> others (inst h) (listeners wd') = others (inst h) (listeners wd)
         \<and> P (declared h) = Inl e"
proof -
  obtain h1 wd1 where rc: "run_cleanup h wd = (h1, wd1)" by (cases "run_cleanup h wd")
  from assms(2) rc
  have "effect P (declared h) (h1\<lparr>deps := Some (declared h)\<rparr>) wd1 = Inl (e, wd')"
    by (simp add: commit_def split: if_splits)
  from effect_raise [OF this] run_cleanup_live [OF assms(1) rc] show ?thesis by simp
qed

lemma live_declared: "live P (h\<lparr>declared := q\<rparr>) wd = live P h wd"
  by (simp add: live_def split: option.splits)

lemma rerender_live:
  assumes "live P h wd" and "rerender P q h wd = Inr (h', wd')"
  shows "live P h' wd' \<and> inst h' = inst h \<and> window wd' = window wd
         \<and> others (inst h) (listeners wd') = others (inst h) (listeners wd)"
proof -
  from assms(2) have "commit P (h\<lparr>declared := q\<rparr>) wd = Inr (h', wd')"
    by (auto simp: rerender_def render_def useMediaQuery_def split: sum.splits)
  from commit_live [OF _ this] assms(1) show ?thesis by (simp add: live_declared)
qed

lemma rerender_raise:
  assumes "live P h wd" and "rerender P q h wd = Inl (e, wd')"
  shows "owned (inst h) (listeners wd') = [] \<and> window wd' = window wd
         \<and> others (inst h) (listeners wd') = others (inst h) (listeners wd) \<and> P q = Inl e"
proof -
  from assms(2) have "commit P (h\<lparr>declared := q\<rparr>) wd = Inl (e, wd')"
    by (auto simp: rerender_def render_def useMediaQuery_def split: sum.splits)
  from commit_raise [OF _ this] assms(1) show ?thesis by (simp add: live_declared)
qed

lemma initial_matches_listeners:
  "initial_matches P q wd = Inr (b, wd') \<Longrightarrow>
   listeners wd' = listeners wd \<and> window wd' = window wd"
  by (auto simp: initial_matches_def matchMedia_def split: option.splits sum.splits)

lemma mount_live:
  assumes "owned i (listeners wd) = []" and "mount P q i wd = Inr (h, wd')"
  shows "live P h wd' \<and> inst h = i \<and> window wd' = window wd
         \<and> others i (listeners wd') = others i (listeners wd)"
proof -
  from assms(2) obtain b wd1 where
    im: "initial_matches P q wd = Inr (b, wd1)" and
    ef: "effect P q (\<lparr>inst = i, matches = b, declared = q, deps = None, cleanup = None,
                      calls = []\<rparr>\<lparr>deps := Some q\<rparr>) wd1 = Inr (h, wd')"
    by (auto simp: mount_def render_def useMediaQuery_def commit_def run_cleanup_def
          split: sum.splits)
  from initial_matches_listeners [OF im] assms(1)
  have "owned (inst \<lparr>inst = i, matches = b, declared = q, deps = None, cleanup = None,
                     calls = []\<rparr>) (listeners wd1) = []" by simp
  from effect_live [OF this ef] initial_matches_listeners [OF im] show ?thesis by simp
qed

lemma mount_raise:
  assumes "mount P q i wd = Inl (e, wd')"
  shows "wd' = wd \<and> P q = Inl e \<and> window wd \<noteq> None"
  using assms
  by (auto simp: mount_def render_def useMediaQuery_def initial_matches_def matchMedia_def
        commit_def run_cleanup_def effect_def Let_def split: sum.splits option.splits)

lemma resize_live:
  assumes "live P h wd" and "resize v' h wd = (h', wd')"
  shows "live P h' wd' \<and> inst h' = inst h \<and> (window wd' = None) = (window wd = None)
         \<and> listeners wd' = listeners wd"
  using assms dispatch_owned [of _ v' "listeners wd" h]
  by (auto simp: resize_def live_def handleChange_def setMatches_def
        split: option.splits if_splits)

lemma run_live:
  "live P h wd \<Longrightarrow> run P as h wd = Inr (h', wd') \<Longrightarrow>
   live P h' wd' \<and> inst h' = inst h \<and> (window wd' = None) = (window wd = None)
   \<and> others (inst h) (listeners wd') = others (inst h) (listeners wd)"
proof (induction as arbitrary: h wd)
  case Nil
  then show ?case by simp
next
  case (Cons a as)
  show ?case
  proof (cases a)
    case (Rerender q)
    with Cons.prems(2) obtain h1 wd1 where
      r: "rerender P q h wd = Inr (h1, wd1)" and rest: "run P as h1 wd1 = Inr (h', wd')"
      by (auto split: sum.splits)
    from rerender_live [OF Cons.prems(1) r] Cons.IH [OF _ rest] show ?thesis by simp
  next
    case (Resize v)
    obtain h1 wd1 where r: "resize v h wd = (h1, wd1)" by (cases "resize v h wd")
    with Cons.prems(2) Resize have rest: "run P as h1 wd1 = Inr (h', wd')" by simp
    from resize_live [OF Cons.prems(1) r] Cons.IH [OF _ rest] show ?thesis by simp
  qed
qed

lemma run_raise:
  "live P h wd \<Longrightarrow> run P as h wd = Inl (e, wd') \<Longrightarrow>
   owned (inst h) (listeners wd') = []
   \<and> others (inst h) (listeners wd') = others (inst h) (listeners wd)"
proof (induction as arbitrary: h wd)
  case Nil
  then show ?case by simp
next
  case (Cons a as)
  show ?case
  proof (cases a)
    case (Rerender q)
    show ?thesis
    proof (cases "rerender P q h wd")
      case (Inl ex)
      with Cons.prems(2) Rerender have "rerender P q h wd = Inl (e, wd')" by simp
      from rerender_raise [OF Cons.prems(1) this] show ?thesis by simp
    next
      case (Inr s)
      obtain h1 wd1 where s: "s = (h1, wd1)" by (cases s)
      with Inr Cons.prems(2) Rerender have rest: "run P as h1 wd1 = Inl (e, wd')" by simp
      from rerender_live [OF Cons.prems(1) Inr [unfolded s]] Cons.IH [OF _ rest]
      show ?thesis by simp
    qed
  next
    case (Resize v)
    obtain h1 wd1 where r: "resize v h wd = (h1, wd1)" by (cases "resize v h wd")
    with Cons.prems(2) Resize have rest: "run P as h1 wd1 = Inl (e, wd')" by simp
    from resize_live [OF Cons.prems(1) r] Cons.IH [OF _ rest] show ?thesis by simp
  qed
qed

lemma life_live:
  assumes "owned i (listeners wd0) = []" and "life P Q i as wd0 = Inr (h, wd)"
  shows "live P h wd \<and> inst h = i \<and> (window wd = None) = (window wd0 = None)
         \<and> others i (listeners wd) = listeners wd0"
proof -
  from assms(2) obtain h0 wd1 where
    m: "mount P Q i wd0 = Inr (h0, wd1)" and r: "run P as h0 wd1 = Inr (h, wd)"
    by (auto simp: life_def split: sum.splits)
  from mount_live [OF assms(1) m]
  have l0: "live P h0 wd1" and i0: "inst h0 = i" and w0: "window wd1 = window wd0"
    and o0: "others i (listeners wd1) = others i (listeners wd0)" by simp_all
  from run_live [OF l0 r] i0
  have l: "live P h wd" and i1: "inst h = i" and w: "(window wd = None) = (window wd1 = None)"
    and o1: "others i (listeners wd) = others i (listeners wd1)" by simp_all
  have "others i (listeners wd) = listeners wd0"
    using o1 o0 others_all [OF assms(1)] by (rule trans [OF trans])
  with l i1 w w0 show ?thesis by simp
qed

lemma life_raise:
  assumes "owned i (listeners wd0) = []" and "life P Q i as wd0 = Inl (e, wd)"
  shows "listeners wd = listeners wd0"
proof (cases "mount P Q i wd0")
  case (Inl ex)
  with assms(2) have "mount P Q i wd0 = Inl (e, wd)" by (simp add: life_def)
  from mount_raise [OF this] show ?thesis by simp
next
  case (Inr s)
  obtain h0 wd1 where s: "s = (h0, wd1)" by (cases s)
  with Inr assms(2) have r: "run P as h0 wd1 = Inl (e, wd)" by (simp add: life_def)
  from mount_live [OF assms(1) Inr [unfolded s]] run_raise [OF _ r]
  have o: "owned i (listeners wd) = []"
    and ot: "others i (listeners wd) = others i (listeners wd0)"
    by simp_all
  have "listeners wd = others i (listeners wd)" by (rule others_all [OF o, symmetric])
  also have "\<dots> = others i (listeners wd0)" by (rule ot)
  also have "\<dots> = listeners wd0" by (rule others_all [OF assms(1)])
  finally show ?thesis .
qed

subsection \<open>Facts used by the properties\<close>

lemma no_window_commit:
  "window wd = None \<Longrightarrow> cleanup h = None \<Longrightarrow>
   \<exists>h'. commit P h wd = Inr (h', wd) \<and> cleanup h' = None \<and> calls h' = calls h
        \<and> matches h' = matches h \<and> inst h' = inst h"
  by (simp add: commit_def run_cleanup_def effect_def)

lemma no_window_rerender:
  "window wd = None \<Longrightarrow> cleanup h = None \<Longrightarrow>
   \<exists>h'. rerender P q h wd = Inr (h', wd) \<and> cleanup h' = None \<and> calls h' = calls h
        \<and> matches h' = matches h \<and> inst h' = inst h"
  using no_window_commit [of wd "h\<lparr>declared := q\<rparr>" P]
  by (auto simp: rerender_def render_def useMediaQuery_def)

lemma no_window_run:
  "window wd = None \<Longrightarrow> cleanup h = None \<Longrightarrow>
   \<exists>h'. run P as h wd = Inr (h', wd) \<and> cleanup h' = None \<and> calls h' = calls h
        \<and> matches h' = matches h"
proof (induction as arbitrary: h)
  case Nil
  then show ?case by simp
next
  case (Cons a as)
  show ?case
  proof (cases a)
    case (Rerender q)
    from no_window_rerender [OF Cons.prems, of P q] obtain h1 where
      r: "rerender P q h wd = Inr (h1, wd)" and c: "cleanup h1 = None"
      and k: "calls h1 = calls h" "matches h1 = matches h" by blast
    from Cons.IH [OF Cons.prems(1) c] r k Rerender show ?thesis by auto
  next
    case (Resize v)
    from Cons.prems(1) have "resize v h wd = (h, wd)" by (simp add: resize_def)
    with Cons.IH [OF Cons.prems] Resize show ?thesis by simp
  qed
qed

lemma no_window_mount:
  "window wd = None \<Longrightarrow>
   \<exists>h. mount P q i wd = Inr (h, wd) \<and> cleanup h = None \<and> calls h = [] \<and> \<not> matches h"
  by (simp add: mount_def render_def useMediaQuery_def initial_matches_def commit_def
        run_cleanup_def effect_def)

lemma live_resize:
  assumes "live P h wd" and "window wd = Some v" and "deps h = Some Q" and "P Q = Inr t"
  shows "resize v' h wd =
           (if t v \<noteq> t v' then h\<lparr>matches := t v', calls := calls h @ [SetMatches (t v')]\<rparr> else h,
            wd\<lparr>window := Some v'\<rparr>)"
proof -
  from assms(1,2) obtain m cb where
    c: "cleanup h = Some (m, cb)" and o: "cb_owner cb = inst h"
    and l: "owned (inst h) (listeners wd) = [\<lparr>target = m, handler = cb\<rparr>]"
    and d: "deps h = Some (media m)" and p: "P (media m) = Inr (test m)"
    by (auto simp: live_def split: option.splits)
  from d p assms(3,4) have t: "test m = t" by simp
  have "dispatch v v' (listeners wd) h = dispatch v v' [\<lparr>target = m, handler = cb\<rparr>] h"
    using dispatch_owned [of v v' "listeners wd" h] l by simp
  with assms(2) o t show ?thesis
    by (simp add: resize_def handleChange_def setMatches_def)
qed

lemma resizes_disposed:
  "owned (inst h) (listeners wd) = [] \<Longrightarrow> fst (resizes vs h wd) = h"
proof (induction vs arbitrary: wd)
  case Nil
  then show ?case by simp
next
  case (Cons v' vs)
  have r: "resize v' h wd = (h, case window wd of None \<Rightarrow> wd | Some v \<Rightarrow> wd\<lparr>window := Some v'\<rparr>)"
    using dispatch_owned [of _ v' "listeners wd" h] Cons.prems
    by (simp add: resize_def split: option.splits)
  have "owned (inst h) (listeners (case window wd of None \<Rightarrow> wd | Some v \<Rightarrow> wd\<lparr>window := Some v'\<rparr>)) = []"
    using Cons.prems by (simp split: option.splits)
  from Cons.IH [OF this] r show ?case by simp
qed

lemma unmount_live:
  assumes "owned i (listeners wd0) = []" and "life P Q i as wd0 = Inr (h, wd)"
    and "unmount h wd = (h', wd')"
  shows "listeners wd' = listeners wd0 \<and> owned (inst h') (listeners wd') = []"
proof -
  from life_live [OF assms(1,2)]
  have l: "live P h wd" and i: "inst h = i" and ot: "others i (listeners wd) = listeners wd0"
    by simp_all
  from run_cleanup_live [OF l assms(3) [unfolded unmount_def]] i
  have o: "owned i (listeners wd') = []" and i': "inst h' = i"
    and ot': "others i (listeners wd') = others i (listeners wd)" by simp_all
  have "listeners wd' = others i (listeners wd')" by (rule others_all [OF o, symmetric])
  also have "\<dots> = others i (listeners wd)" by (rule ot')
  also have "\<dots> = listeners wd0" by (rule ot)
  finally show ?thesis using o i' by simp
qed

lemma lifecycle_listeners:
  assumes "owned i (listeners wd0) = []"
  shows "listeners (lifecycle P Q i as wd0) = listeners wd0"
proof (cases "life P Q i as wd0")
  case (Inl ex)
  obtain e wd where "ex = (e, wd)" by (cases ex)
  with Inl life_raise [OF assms, of P Q as e wd] show ?thesis by (simp add: lifecycle_def)
next
  case (Inr s)
  obtain h wd where s: "s = (h, wd)" by (cases s)
  obtain h' wd' where u: "unmount h wd = (h', wd')" by (cases "unmount h wd")
  from unmount_live [OF assms Inr [unfolded s] u]
  show ?thesis using Inr s u by (simp add: lifecycle_def)
qed

lemma cycles_listeners:
  "list_all (\<lambda>(Q, i, as). owned i (listeners wd0) = []) cs \<Longrightarrow>
   listeners (cycles P cs wd0) = listeners wd0"
proof (induction cs arbitrary: wd0)
  case Nil
  then show ?case by simp
next
  case (Cons c cs)
  obtain Q i as where c: "c = (Q, i, as)" by (cases c)
  from Cons.prems c have f: "owned i (listeners wd0) = []" by simp
  have eq: "listeners (lifecycle P Q i as wd0) = listeners wd0"
    by (rule lifecycle_listeners [OF f])
  from Cons.prems
  have "list_all (\<lambda>(Q', j, bs). owned j (listeners (lifecycle P Q i as wd0)) = []) cs"
    by (simp add: eq)
  from Cons.IH [OF this] eq c show ?case by simp
qed

lemma live_count:
  "live P h wd \<Longrightarrow>
   length (owned (inst h) (listeners wd)) = (case window wd of None \<Rightarrow> 0 | Some v \<Rightarrow> 1)"
  by (auto simp: live_def split: option.splits)

lemma live_dispatch_reread:
  assumes "live P h wd" and "window wd = Some v"
  shows "dispatch v v' (listeners wd) h = dispatch_reread v v' (listeners wd) h"
proof -
  have gen: "dispatch_reread v v' ls h = dispatch_reread v v' (owned (inst h) ls) h" for ls
  proof (induction ls arbitrary: h)
    case Nil
    then show ?case by (simp add: owned_def)
  next
    case (Cons l ls)
    have "inst (handleChange_reread v' h) = inst h"
      by (simp add: handleChange_reread_def split: option.splits)
    with Cons [of h] Cons [of "handleChange_reread v' h"] show ?case by (simp add: owned_def)
  qed
  from assms obtain m cb where
    c: "cleanup h = Some (m, cb)" and o: "cb_owner cb = inst h"
    and l: "owned (inst h) (listeners wd) = [\<lparr>target = m, handler = cb\<rparr>]"
    by (auto simp: live_def split: option.splits)
  have "dispatch v v' (listeners wd) h = dispatch v v' [\<lparr>target = m, handler = cb\<rparr>] h"
    using dispatch_owned [of v v' "listeners wd" h] l by simp
  moreover have "dispatch_reread v v' (listeners wd) h
                 = dispatch_reread v v' [\<lparr>target = m, handler = cb\<rparr>] h"
    using gen [of "listeners wd"] l by simp
  ultimately show ?thesis using c o
    by (simp add: handleChange_def handleChange_reread_def)
qed

lemma window_run_cleanup: "window (snd (run_cleanup h wd)) = window wd"
  by (simp add: run_cleanup_def removeEventListener_def split: option.splits prod.splits)

lemma run_cleanup_declared:
  "snd (run_cleanup (h\<lparr>declared := Q\<rparr>) wd) = snd (run_cleanup h wd)"
  by (simp add: run_cleanup_def split: option.splits prod.splits)

subsection \<open>Evaluating the simulated viewport\<close>

lemma sim_engine_768: "sim_engine ''(max-width: 768px)'' = Inr (\<lambda>width. width \<le> 768)"
  by (simp add: sim_engine_def is_digit_def digit_of_def decimal_def)

lemma sim_engine_1024: "sim_engine ''(max-width: 1024px)'' = Inr (\<lambda>width. width \<le> 1024)"
  by (simp add: sim_engine_def is_digit_def digit_of_def decimal_def)

lemma sim_engine_malformed: "sim_engine ''(min-width'' = Inl (PlatformError ''(min-width'')"
  by (simp add: sim_engine_def)

lemmas hook_defs = life_def mount_def rerender_def render_def useMediaQuery_def
  initial_matches_def matchMedia_def commit_def run_cleanup_def effect_def setMatches_def
  addEventListener_def removeEventListener_def resize_def handleChange_def same_listener_def
  unmount_def Let_def

subsection \<open>A render with another query\<close>

lemma rerender_resubscribes:
  assumes "owned i (listeners wd0) = []"
    and "life P Q0 i as wd0 = Inr (h, wd)"
    and "window wd = Some v"
    and "deps h = Some Q" and "Q' \<noteq> Q" and "P Q' = Inr t'"
  shows "map_sum fst (\<lambda>(h', wd'). (matches h', calls h', deps h', owned i (listeners wd'), others i (listeners wd')))
           (rerender P Q' h wd)
         = Inr (t' v,
                calls h @ [RemoveEventListener Q, SetMatches (t' v), AddEventListener Q'],
                Some Q',
                [\<lparr>target = \<lparr>mql_ref = next_ref wd, media = Q', test = t'\<rparr>,
                  handler = \<lparr>cb_ref = Suc (next_ref wd), cb_owner = i\<rparr>\<rparr>],
                listeners wd0)"
proof -
  from life_live [OF assms(1,2)]
  have l: "live P h wd" and i: "inst h = i" and ot: "others i (listeners wd) = listeners wd0"
    by simp_all
  from l assms(3,4) obtain m cb where
    c: "cleanup h = Some (m, cb)" and o: "cb_owner cb = i"
    and ow: "owned i (listeners wd) = [\<lparr>target = m, handler = cb\<rparr>]"
    and d: "media m = Q"
    using i by (auto simp: live_def split: option.splits)
  let ?ls = "filter (\<lambda>l. \<not> same_listener m cb l) (listeners wd)"
  have o1: "owned i ?ls = []" by (rule owned_remove [OF o ow])
  have o2: "others i ?ls = listeners wd0" using others_removed [OF o, of m "listeners wd"] ot by simp
  have nl: "\<not> list_ex (same_listener \<lparr>mql_ref = next_ref wd, media = Q', test = t'\<rparr>
                \<lparr>cb_ref = Suc (next_ref wd), cb_owner = i\<rparr>) ?ls"
    using not_listed [of "\<lparr>cb_ref = Suc (next_ref wd), cb_owner = i\<rparr>" ?ls] o1 by simp
  show ?thesis
    using assms(3,4,5,6) c d i nl o1 o2
    by (simp add: rerender_def render_def useMediaQuery_def commit_def run_cleanup_def
          removeEventListener_def effect_def matchMedia_def Let_def setMatches_def
          addEventListener_def owned_def others_def)
qed

lemma rerender_headless:
  assumes "life P Q0 i as wd0 = Inr (h, wd)" and "window wd = None"
  shows "map_sum fst (\<lambda>(h', wd'). (matches h', calls h', deps h', wd'))
           (rerender P Q' h wd) = Inr (False, [], Some Q', wd0)"
proof -
  have w0: "window wd0 = None"
  proof (cases "window wd0")
    case None
    then show ?thesis .
  next
    case (Some v)
    from assms(1) obtain h0 wd1 where
      m: "mount P Q0 i wd0 = Inr (h0, wd1)" and r: "run P as h0 wd1 = Inr (h, wd)"
      by (auto simp: life_def split: sum.splits)
    have "window wd1 = window wd0" using m
      by (auto simp: hook_defs split: sum.splits option.splits if_splits)
    moreover have "(window wd = None) = (window wd1 = None)" using r
    proof (induction as arbitrary: h0 wd1)
      case Nil
      then show ?case by simp
    next
      case (Cons a as)
      show ?case
      proof (cases a)
        case (Rerender q)
        with Cons.prems obtain h2 wd2 where
          rr: "rerender P q h0 wd1 = Inr (h2, wd2)" and rest: "run P as h2 wd2 = Inr (h, wd)"
          by (auto split: sum.splits)
        have "window wd2 = window wd1"
          using rr window_run_cleanup [of "h0\<lparr>declared := q\<rparr>" wd1]
          by (cases "run_cleanup (h0\<lparr>declared := q\<rparr>) wd1")
             (auto simp: rerender_def render_def useMediaQuery_def commit_def effect_def
                matchMedia_def addEventListener_def Let_def
                split: sum.splits option.splits if_splits)
        with Cons.IH [OF rest] show ?thesis by simp
      next
        case (Resize v')
        obtain h2 wd2 where rs: "resize v' h0 wd1 = (h2, wd2)" by (cases "resize v' h0 wd1")
        with Cons.prems Resize have rest: "run P as h2 wd2 = Inr (h, wd)" by simp
        from rs have "(window wd2 = None) = (window wd1 = None)"
          by (auto simp: resize_def split: option.splits)
        with Cons.IH [OF rest] show ?thesis by simp
      qed
    qed
    ultimately show ?thesis using assms(2) by simp
  qed
  from no_window_mount [OF w0, of P Q0 i] obtain h0 where
    m: "mount P Q0 i wd0 = Inr (h0, wd0)" and c0: "cleanup h0 = None"
    and k0: "calls h0 = []" "\<not> matches h0" by blast
  from no_window_run [OF w0 c0, of P as] obtain h1 where
    r: "run P as h0 wd0 = Inr (h1, wd0)" and c1: "cleanup h1 = None"
    and k1: "calls h1 = calls h0" "matches h1 = matches h0" by blast
  from m r assms(1) have e: "h = h1" "wd = wd0" by (simp_all add: life_def)
  from e c1 k1 k0 w0 show ?thesis
    by (simp add: rerender_def render_def useMediaQuery_def commit_def run_cleanup_def effect_def)
qed

lemma rerender_rejected:
  assumes "owned i (listeners wd0) = []"
    and "life P Q0 i as wd0 = Inr (h, wd)"
    and "window wd = Some v"
    and "deps h = Some Q" and "Q' \<noteq> Q" and "P Q' = Inl e"
  shows "map_sum (\<lambda>(e', wd'). (e', listeners wd')) (\<lambda>s. ()) (rerender P Q' h wd)
         = Inl (e, listeners wd0)"
proof -
  from life_live [OF assms(1,2)]
  have l: "live P h wd" and i: "inst h = i" and ot: "others i (listeners wd) = listeners wd0"
    by simp_all
  obtain h1 wd1 where rc: "run_cleanup (h\<lparr>declared := Q'\<rparr>) wd = (h1, wd1)"
    by (cases "run_cleanup (h\<lparr>declared := Q'\<rparr>) wd")
  have w1: "window wd1 = Some v"
    using window_run_cleanup [of "h\<lparr>declared := Q'\<rparr>" wd] rc assms(3) by simp
  have rr: "rerender P Q' h wd = Inl (e, wd1)"
    using assms(4,5,6) rc w1
    by (simp add: rerender_def render_def useMediaQuery_def commit_def effect_def matchMedia_def)
  from rerender_raise [OF l rr] i
  have o: "owned i (listeners wd1) = []"
    and ot1: "others i (listeners wd1) = others i (listeners wd)" by simp_all
  have "listeners wd1 = others i (listeners wd1)" by (rule others_all [OF o, symmetric])
  also have "\<dots> = others i (listeners wd)" by (rule ot1)
  also have "\<dots> = listeners wd0" by (rule ot)
  finally show ?thesis using rr by simp
qed

section \<open>Properties\<close>


text \<open>
  C1. The first render of \<open>useMediaQuery(Q)\<close> returns \<open>false\<close> when there is no window,
  and otherwise what the platform's query engine says about \<open>Q\<close> on the viewport of
  that moment (or raises what the engine raises).
\<close>

theorem C1_initial_value:
  "map_sum fst fst (useMediaQuery P Q i None wd) =
     (case window wd of
        None \<Rightarrow> Inr False
      | Some v \<Rightarrow> map_sum id (\<lambda>t. t v) (P Q))"
  by (simp add: useMediaQuery_def initial_matches_def matchMedia_def
           split: option.splits sum.splits)

text \<open>
  C2. Without a window, \<open>useMediaQuery(Q)\<close> yields \<open>false\<close> and never changes: at every
  point of the life of the instance, whatever the queries of its later renders and
  whatever else happens, no exception is raised, the value is \<open>false\<close>, the hook has
  called neither \<open>setMatches\<close> nor \<open>addEventListener\<close>, and the world is untouched.
\<close>

theorem C2_no_window_constant_false:
  assumes "window wd0 = None"
  shows "map_sum fst (\<lambda>(h, wd). (matches h, calls h, wd)) (life P Q i as wd0)
         = Inr (False, [], wd0)"
proof -
  from no_window_mount [OF assms, of P Q i] obtain h0 where
    m: "mount P Q i wd0 = Inr (h0, wd0)" and c: "cleanup h0 = None"
    and k: "calls h0 = []" "\<not> matches h0" by blast
  from no_window_run [OF assms c, of P as] obtain h where
    "run P as h0 wd0 = Inr (h, wd0)" "calls h = calls h0" "matches h = matches h0" by blast
  with m k show ?thesis by (simp add: life_def)
qed

theorem C2_witness:
  "window headless_world = None \<and>
   map_sum fst (\<lambda>(h, wd). (matches h, calls h, wd))
     (life sim_engine ''(min-width'' 0 [Resize 500, Rerender ''(max-width: 768px)''] headless_world)
   = Inr (False, [], headless_world)"
proof -
  have w: "window headless_world = None" by (simp add: headless_world_def)
  from C2_no_window_constant_false [OF w] w show ?thesis by simp
qed

text \<open>
  C3. \<open>useIsMobile\<close> is \<open>useMediaQuery\<close> applied to \<open>(max-width: 768px)\<close>, the query
  that holds when the width is at most 768. In the simulated viewport a live component
  reads true, true, true, true, false, false, false while the width goes through 320,
  375, 428, 768, 769, 1024, 1200, and so does the first render of a new component at
  each of these widths.
\<close>

theorem C3_useIsMobile:
  "useIsMobile P = useMediaQuery P ''(max-width: 768px)'' \<and>
   sim_engine ''(max-width: 768px)'' = Inr (\<lambda>width. width \<le> 768) \<and>
   simulate sim_engine (useIsMobile sim_engine) [320, 375, 428, 768, 769, 1024, 1200]
     = Inr [True, True, True, True, False, False, False] \<and>
   map (first_reading sim_engine (useIsMobile sim_engine)) [320, 375, 428, 768, 769, 1024, 1200]
     = map Inr [True, True, True, True, False, False, False]"
proof (intro conjI)
  show "useIsMobile P = useMediaQuery P ''(max-width: 768px)''"
    by (simp add: useIsMobile_def)
  show "sim_engine ''(max-width: 768px)'' = Inr (\<lambda>width. width \<le> 768)"
    by (rule sim_engine_768)
  show "simulate sim_engine (useIsMobile sim_engine) [320, 375, 428, 768, 769, 1024, 1200]
     = Inr [True, True, True, True, False, False, False]"
    by (simp add: simulate_def useIsMobile_def hook_defs sim_engine_768)
  show "map (first_reading sim_engine (useIsMobile sim_engine)) [320, 375, 428, 768, 769, 1024, 1200]
     = map Inr [True, True, True, True, False, False, False]"
    by (simp add: first_reading_def useIsMobile_def hook_defs sim_engine_768)
qed

text \<open>
  C4. \<open>useIsTablet\<close> is \<open>useMediaQuery\<close> applied to \<open>(max-width: 1024px)\<close>, the query
  that holds when the width is at most 1024. Over the same widths a live component reads
  true, true, true, true, true, true, false, and so does the first render of a new
  component at each of them.
\<close>

theorem C4_useIsTablet:
  "useIsTablet P = useMediaQuery P ''(max-width: 1024px)'' \<and>
   sim_engine ''(max-width: 1024px)'' = Inr (\<lambda>width. width \<le> 1024) \<and>
   simulate sim_engine (useIsTablet sim_engine) [320, 375, 428, 768, 769, 1024, 1200]
     = Inr [True, True, True, True, True, True, False] \<and>
   map (first_reading sim_engine (useIsTablet sim_engine)) [320, 375, 428, 768, 769, 1024, 1200]
     = map Inr [True, True, True, True, True, True, False]"
proof (intro conjI)
  show "useIsTablet P = useMediaQuery P ''(max-width: 1024px)''"
    by (simp add: useIsTablet_def)
  show "sim_engine ''(max-width: 1024px)'' = Inr (\<lambda>width. width \<le> 1024)"
    by (rule sim_engine_1024)
  show "simulate sim_engine (useIsTablet sim_engine) [320, 375, 428, 768, 769, 1024, 1200]
     = Inr [True, True, True, True, True, True, False]"
    by (simp add: simulate_def useIsTablet_def hook_defs sim_engine_1024)
  show "map (first_reading sim_engine (useIsTablet sim_engine)) [320, 375, 428, 768, 769, 1024, 1200]
     = map Inr [True, True, True, True, True, True, False]"
    by (simp add: first_reading_def useIsTablet_def hook_defs sim_engine_1024)
qed

text \<open>
  C5. Take a live instance (new when it was mounted, in any state its renders and the
  viewport changes can bring it to) that observes \<open>Q\<close> in a window showing \<open>v\<close>. A change
  of the viewport to \<open>v'\<close> across the threshold of \<open>Q\<close> makes the hook call
  \<open>setMatches\<close> exactly once, with the match state of \<open>Q\<close> on \<open>v'\<close>, which becomes
  the value; nothing else of the hook's memory changes.
\<close>

theorem C5_one_update_per_crossing:
  assumes "owned i (listeners wd0) = []"
    and "life P Q0 i as wd0 = Inr (h, wd)"
    and "window wd = Some v"
    and "deps h = Some Q" and "P Q = Inr t"
    and "t v \<noteq> t v'"
  shows "resize v' h wd =
           (h\<lparr>matches := t v', calls := calls h @ [SetMatches (t v')]\<rparr>, wd\<lparr>window := Some v'\<rparr>)"
proof -
  from life_live [OF assms(1,2)] have "live P h wd" by simp
  from live_resize [OF this assms(3,4,5), of v'] assms(6) show ?thesis by simp
qed

theorem C5_witness:
  "owned 0 (listeners demo_world) = [] \<and>
   (case life sim_engine ''(max-width: 768px)'' 0 [Resize 900] demo_world of
      Inl ex \<Rightarrow> False
    | Inr (h, wd) \<Rightarrow>
        window wd = Some 900 \<and> deps h = Some ''(max-width: 768px)'' \<and>
        resize 700 h wd =
          (h\<lparr>matches := True, calls := calls h @ [SetMatches True]\<rparr>, wd\<lparr>window := Some 700\<rparr>))"
proof -
  have f: "owned 0 (listeners demo_world) = []" by (simp add: demo_world_def owned_def)
  have "\<exists>h wd. life sim_engine ''(max-width: 768px)'' 0 [Resize 900] demo_world = Inr (h, wd)
          \<and> window wd = Some 900 \<and> deps h = Some ''(max-width: 768px)''"
    by (simp add: hook_defs sim_engine_768 demo_world_def)
  then obtain h wd where
    L: "life sim_engine ''(max-width: 768px)'' 0 [Resize 900] demo_world = Inr (h, wd)"
    and w: "window wd = Some 900" and d: "deps h = Some ''(max-width: 768px)''" by blast
  have "resize 700 h wd =
          (h\<lparr>matches := True, calls := calls h @ [SetMatches True]\<rparr>, wd\<lparr>window := Some 700\<rparr>)"
    using C5_one_update_per_crossing [OF f L w d sim_engine_768, of 700] by simp
  with f L w d show ?thesis by simp
qed

text \<open>
  C6. A new instance is mounted and lives through any renders and viewport changes. If
  its life ends by an exception, the listeners are those from before it was mounted. If
  it is unmounted, the listeners are again those from before it was mounted, and any
  sequence of further viewport changes leaves the hook's memory as the cleanup left it:
  no \<open>setMatches\<close>, the same value.
\<close>

theorem C6_no_update_after_disposal:
  assumes "owned i (listeners wd0) = []"
  shows "case life P Q i as wd0 of
           Inl (e, wd) \<Rightarrow> listeners wd = listeners wd0
         | Inr (h, wd) \<Rightarrow>
             (case unmount h wd of
                (h', wd') \<Rightarrow> listeners wd' = listeners wd0 \<and> fst (resizes vs h' wd') = h')"
proof (cases "life P Q i as wd0")
  case (Inl ex)
  obtain e wd where "ex = (e, wd)" by (cases ex)
  with Inl life_raise [OF assms, of P Q as e wd] show ?thesis by simp
next
  case (Inr s)
  obtain h wd where s: "s = (h, wd)" by (cases s)
  obtain h' wd' where u: "unmount h wd = (h', wd')" by (cases "unmount h wd")
  note ul = unmount_live [OF assms Inr [unfolded s] u]
  have a: "listeners wd' = listeners wd0" by (rule conjunct1 [OF ul])
  have b: "owned (inst h') (listeners wd') = []" by (rule conjunct2 [OF ul])
  from a resizes_disposed [OF b, of vs] show ?thesis using Inr s u by simp
qed

theorem C6_witness:
  "owned 0 (listeners demo_world) = [] \<and>
   \<not> isl (life sim_engine ''(max-width: 768px)'' 0
            [Resize 700, Rerender ''(max-width: 1024px)''] demo_world) \<and>
   (case life sim_engine ''(max-width: 768px)'' 0
            [Resize 700, Rerender ''(max-width: 1024px)''] demo_world of
      Inl (e, wd) \<Rightarrow> listeners wd = listeners demo_world
    | Inr (h, wd) \<Rightarrow>
        (case unmount h wd of
           (h', wd') \<Rightarrow> listeners wd' = listeners demo_world \<and>
                        fst (resizes [1200, 500, 1100] h' wd') = h'))"
proof -
  have f: "owned 0 (listeners demo_world) = []" by (simp add: demo_world_def owned_def)
  have "\<not> isl (life sim_engine ''(max-width: 768px)'' 0
            [Resize 700, Rerender ''(max-width: 1024px)''] demo_world)"
    by (simp add: hook_defs sim_engine_768 sim_engine_1024 demo_world_def)
  with f C6_no_update_after_disposal [OF f] show ?thesis by blast
qed

text \<open>
  C7 (as the code has it). Mount/dispose cycles of new instances, any number of them and
  however each life goes and ends, leave exactly the listeners that were there before.
  A live instance holds exactly one change listener when there is a window, and none
  when there is no window.
\<close>

theorem C7_one_subscription_none_left:
  assumes "list_all (\<lambda>(Q, i, as). owned i (listeners wd0) = []) cs"
    and "owned i (listeners wd0) = []"
  shows "listeners (cycles P cs wd0) = listeners wd0 \<and>
         (case life P Q i as wd0 of
            Inl ex \<Rightarrow> True
          | Inr (h, wd) \<Rightarrow>
              length (owned i (listeners wd)) = (case window wd0 of None \<Rightarrow> 0 | Some v \<Rightarrow> 1))"
proof
  show "listeners (cycles P cs wd0) = listeners wd0" by (rule cycles_listeners [OF assms(1)])
next
  show "case life P Q i as wd0 of
            Inl ex \<Rightarrow> True
          | Inr (h, wd) \<Rightarrow>
              length (owned i (listeners wd)) = (case window wd0 of None \<Rightarrow> 0 | Some v \<Rightarrow> 1)"
  proof (cases "life P Q i as wd0")
    case (Inl ex)
    then show ?thesis by simp
  next
    case (Inr s)
    obtain h wd where s: "s = (h, wd)" by (cases s)
    from life_live [OF assms(2) Inr [unfolded s]] live_count [of P h wd]
    show ?thesis using Inr s by (auto split: option.splits)
  qed
qed

theorem C7_witness:
  "list_all (\<lambda>(Q, i, as). owned i (listeners demo_world) = [])
     (replicate 100 (''(max-width: 768px)'', 0, [Resize (700::nat)])) \<and>
   owned 0 (listeners demo_world) = [] \<and>
   listeners (cycles sim_engine (replicate 100 (''(max-width: 768px)'', 0, [Resize (700::nat)])) demo_world)
     = listeners demo_world \<and>
   \<not> isl (life sim_engine ''(max-width: 768px)'' 0 [Resize 700] demo_world) \<and>
   (case life sim_engine ''(max-width: 768px)'' 0 [Resize 700] demo_world of
      Inl ex \<Rightarrow> True
    | Inr (h, wd) \<Rightarrow> length (owned 0 (listeners wd)) = 1)"
proof -
  have f: "owned 0 (listeners demo_world) = []" by (simp add: demo_world_def owned_def)
  have fs: "list_all (\<lambda>(Q, i, as). owned i (listeners demo_world) = [])
              (replicate 100 (''(max-width: 768px)'', 0, [Resize (700::nat)]))"
    using f by (simp add: list_all_iff)
  have r: "\<not> isl (life sim_engine ''(max-width: 768px)'' 0 [Resize 700] demo_world)"
    by (simp add: hook_defs sim_engine_768 demo_world_def)
  have w: "window demo_world = Some 800" by (simp add: demo_world_def)
  from r obtain h wd where
    L: "life sim_engine ''(max-width: 768px)'' 0 [Resize 700] demo_world = Inr (h, wd)"
    by (cases "life sim_engine ''(max-width: 768px)'' 0 [Resize 700] demo_world") auto
  from C7_one_subscription_none_left [OF fs f, of sim_engine "''(max-width: 768px)''" "[Resize 700]"]
  show ?thesis using f fs r by (simp add: L w)
qed

text \<open>
  The claim C7 as the specification states it, that every live instance holds exactly
  one listener, fails without a window: the instance mounted there is live and holds
  none.
\<close>

theorem C7_counterexample:
  "life sim_engine ''(max-width: 768px)'' 0 [] headless_world
     = Inr (\<lparr>inst = 0, matches = False, declared = ''(max-width: 768px)'',
              deps = Some ''(max-width: 768px)'', cleanup = None, calls = []\<rparr>,
            headless_world) \<and>
   length (owned 0 (listeners headless_world)) \<noteq> 1"
  by (simp add: hook_defs headless_world_def owned_def)

text \<open>
  C8. For a live instance, a viewport change handled by the source's listener, which
  publishes the \<open>matches\<close> carried by the event, gives the same memory and world as the
  same change handled by the specification's listener, which re-reads the match state of
  the observed \<open>MediaQueryList\<close> at that moment.
\<close>

theorem C8_published_value_is_reread:
  assumes "owned i (listeners wd0) = []" and "life P Q i as wd0 = Inr (h, wd)"
  shows "resize v' h wd = resize_reread v' h wd"
proof (cases "window wd")
  case None
  then show ?thesis by (simp add: resize_def resize_reread_def)
next
  case (Some v)
  from life_live [OF assms] have "live P h wd" by simp
  from live_dispatch_reread [OF this Some, of v'] Some show ?thesis
    by (simp add: resize_def resize_reread_def)
qed

theorem C8_witness:
  "owned 0 (listeners demo_world) = [] \<and>
   (case life sim_engine ''(max-width: 768px)'' 0 [Resize 900] demo_world of
      Inl ex \<Rightarrow> False
    | Inr (h, wd) \<Rightarrow>
        resize 700 h wd = resize_reread 700 h wd \<and>
        calls (fst (resize_reread 700 h wd)) = calls h @ [SetMatches True])"
proof -
  have f: "owned 0 (listeners demo_world) = []" by (simp add: demo_world_def owned_def)
  have "\<exists>h wd. life sim_engine ''(max-width: 768px)'' 0 [Resize 900] demo_world = Inr (h, wd)
          \<and> calls (fst (resize 700 h wd)) = calls h @ [SetMatches True]"
    by (simp add: hook_defs sim_engine_768 demo_world_def)
  then obtain h wd where
    L: "life sim_engine ''(max-width: 768px)'' 0 [Resize 900] demo_world = Inr (h, wd)"
    and c: "calls (fst (resize 700 h wd)) = calls h @ [SetMatches True]" by blast
  from C8_published_value_is_reread [OF f L, of 700] c f L show ?thesis by simp
qed

text \<open>
  C9. The hook raises exactly what \<open>window.matchMedia\<close> raises, and does nothing else
  then. The first render, and so mounting, raises \<open>e\<close> if and only if there is a window
  and the engine raises \<open>e\<close> on the query; the world is as it was. A later render raises
  \<open>e\<close> if and only if there is a window, the query differs from the one of the last
  effect run (so that the effect runs and calls \<open>matchMedia\<close>) and the engine raises
  \<open>e\<close> on it; the world is then as the cleanup of the previous effect run left it.
\<close>

theorem C9_exception_propagates:
  "(useMediaQuery P Q i None wd = Inl (e, wd')) = (window wd \<noteq> None \<and> P Q = Inl e \<and> wd' = wd)
   \<and> (mount P Q i wd = Inl (e, wd')) = (window wd \<noteq> None \<and> P Q = Inl e \<and> wd' = wd)
   \<and> (rerender P Q h wd = Inl (e, wd')) =
       (window wd \<noteq> None \<and> deps h \<noteq> Some Q \<and> P Q = Inl e \<and> wd' = snd (run_cleanup h wd))"
proof (intro conjI)
  show "(useMediaQuery P Q i None wd = Inl (e, wd')) = (window wd \<noteq> None \<and> P Q = Inl e \<and> wd' = wd)"
    by (auto simp: useMediaQuery_def initial_matches_def matchMedia_def
          split: sum.splits option.splits)
  show "(mount P Q i wd = Inl (e, wd')) = (window wd \<noteq> None \<and> P Q = Inl e \<and> wd' = wd)"
    by (auto simp: mount_def render_def useMediaQuery_def initial_matches_def matchMedia_def
          commit_def run_cleanup_def effect_def Let_def split: sum.splits option.splits)
  show "(rerender P Q h wd = Inl (e, wd')) =
       (window wd \<noteq> None \<and> deps h \<noteq> Some Q \<and> P Q = Inl e \<and> wd' = snd (run_cleanup h wd))"
    using window_run_cleanup [of "h\<lparr>declared := Q\<rparr>" wd] run_cleanup_declared [of Q h wd]
    by (cases "run_cleanup (h\<lparr>declared := Q\<rparr>) wd")
       (auto simp: rerender_def render_def useMediaQuery_def commit_def effect_def matchMedia_def
          Let_def split: sum.splits option.splits)
qed

text \<open>
  C10 (as the code has it). Take a live instance that observes \<open>Q\<close>, and a render with
  another query \<open>Q'\<close>.
  \<^item> In a window showing \<open>v\<close>, when the engine accepts \<open>Q'\<close>: the hook removes the
    listener of \<open>Q\<close>, publishes the match state of \<open>Q'\<close> on \<open>v\<close> and then registers a
    listener for \<open>Q'\<close>, in this order. Afterwards the value is that match state, the
    instance holds the one new listener, on a new \<open>MediaQueryList\<close> for \<open>Q'\<close>, and the
    listeners of everything else are as they were.
  \<^item> In a window, when the engine raises on \<open>Q'\<close>: the render raises the same, the
    listener of \<open>Q\<close> is removed and none is registered.
  \<^item> Without a window: the hook calls nothing, the value stays \<open>false\<close> and the world
    is as it was.
\<close>

theorem C10_query_change_resubscribes:
  assumes "owned i (listeners wd0) = []"
    and "life P Q0 i as wd0 = Inr (h, wd)"
    and "deps h = Some Q" and "Q' \<noteq> Q"
  shows "case window wd of
           None \<Rightarrow>
             map_sum fst (\<lambda>(h', wd'). (matches h', calls h', deps h', wd'))
               (rerender P Q' h wd) = Inr (False, [], Some Q', wd0)
         | Some v \<Rightarrow>
             (case P Q' of
                Inl e \<Rightarrow>
                  map_sum (\<lambda>(e', wd'). (e', listeners wd')) (\<lambda>s. ()) (rerender P Q' h wd)
                  = Inl (e, listeners wd0)
              | Inr t' \<Rightarrow>
                  map_sum fst (\<lambda>(h', wd'). (matches h', calls h', deps h',
                                            owned i (listeners wd'), others i (listeners wd')))
                    (rerender P Q' h wd)
                  = Inr (t' v,
                         calls h @ [RemoveEventListener Q, SetMatches (t' v), AddEventListener Q'],
                         Some Q',
                         [\<lparr>target = \<lparr>mql_ref = next_ref wd, media = Q', test = t'\<rparr>,
                           handler = \<lparr>cb_ref = Suc (next_ref wd), cb_owner = i\<rparr>\<rparr>],
                         listeners wd0))"
proof (cases "window wd")
  case None
  with rerender_headless [OF assms(2) None, of Q'] show ?thesis by simp
next
  case (Some v)
  show ?thesis
  proof (cases "P Q'")
    case (Inl e)
    with rerender_rejected [OF assms(1,2) Some assms(3,4) Inl] Some show ?thesis by simp
  next
    case (Inr t')
    with rerender_resubscribes [OF assms(1,2) Some assms(3,4) Inr] Some show ?thesis by simp
  qed
qed

theorem C10_witness:
  "owned 0 (listeners demo_world) = [] \<and>
   (case life sim_engine ''(max-width: 768px)'' 0 [Resize 900] demo_world of
      Inl ex \<Rightarrow> False
    | Inr (h, wd) \<Rightarrow>
        window wd = Some 900 \<and> deps h = Some ''(max-width: 768px)'' \<and>
        map_sum fst (\<lambda>(h', wd'). (matches h', calls h', deps h', owned 0 (listeners wd'),
                                  others 0 (listeners wd')))
          (rerender sim_engine ''(max-width: 1024px)'' h wd)
        = Inr (True,
               calls h @ [RemoveEventListener ''(max-width: 768px)'', SetMatches True,
                          AddEventListener ''(max-width: 1024px)''],
               Some ''(max-width: 1024px)'',
               [\<lparr>target = \<lparr>mql_ref = next_ref wd, media = ''(max-width: 1024px)'',
                            test = (\<lambda>width. width \<le> 1024)\<rparr>,
                 handler = \<lparr>cb_ref = Suc (next_ref wd), cb_owner = 0\<rparr>\<rparr>],
               listeners demo_world) \<and>
        map_sum (\<lambda>(e', wd'). (e', listeners wd')) (\<lambda>s. ())
          (rerender sim_engine ''(min-width'' h wd)
        = Inl (PlatformError ''(min-width'', listeners demo_world))"
proof -
  have f: "owned 0 (listeners demo_world) = []" by (simp add: demo_world_def owned_def)
  have "\<exists>h wd. life sim_engine ''(max-width: 768px)'' 0 [Resize 900] demo_world = Inr (h, wd)
          \<and> window wd = Some 900 \<and> deps h = Some ''(max-width: 768px)''"
    by (simp add: hook_defs sim_engine_768 demo_world_def)
  then obtain h wd where
    L: "life sim_engine ''(max-width: 768px)'' 0 [Resize 900] demo_world = Inr (h, wd)"
    and w: "window wd = Some 900" and d: "deps h = Some ''(max-width: 768px)''" by blast
  have n: "''(max-width: 1024px)'' \<noteq> ''(max-width: 768px)''" by simp
  have n': "''(min-width'' \<noteq> ''(max-width: 768px)''" by simp
  from C10_query_change_resubscribes [OF f L d n]
       C10_query_change_resubscribes [OF f L d n'] f L w d
  show ?thesis by (simp add: sim_engine_1024 sim_engine_malformed)
qed

text \<open>
  The claim C10 as it is stated, that a changed query always installs a subscription on
  the new query and re-reads the value, fails without a window: the render with the new
  query makes no call and leaves no listener.
\<close>

theorem C10_counterexample:
  "life sim_engine ''(max-width: 768px)'' 0 [] headless_world
     = Inr (\<lparr>inst = 0, matches = False, declared = ''(max-width: 768px)'',
              deps = Some ''(max-width: 768px)'', cleanup = None, calls = []\<rparr>,
            headless_world) \<and>
   rerender sim_engine ''(max-width: 1024px)''
     \<lparr>inst = 0, matches = False, declared = ''(max-width: 768px)'',
       deps = Some ''(max-width: 768px)'', cleanup = None, calls = []\<rparr> headless_world
     = Inr (\<lparr>inst = 0, matches = False, declared = ''(max-width: 1024px)'',
              deps = Some ''(max-width: 1024px)'', cleanup = None, calls = []\<rparr>,
            headless_world) \<and>
   listeners headless_world = []"
  by (simp add: hook_defs headless_world_def)

end
